theory Spec2Isabelle
  imports Complex_Main
begin

section \<open>The audio engine of the metronome\<close>

text \<open>
  The class \<open>AudioEngine\<close> exists in two versions: \<open>src/services/audioEngine.ts\<close>, which
  only beeps, and the later one with a selectable sound (\<open>soundType\<close>, \<open>playBeep\<close> \<dots>
  \<open>playDrumset\<close>). Their \<open>setSettings\<close>, \<open>start\<close>, \<open>stop\<close>, \<open>scheduler\<close>, \<open>nextNote\<close> and
  \<open>handleSpeedIncrease\<close> are the same text; the later version is the one embedded, and the
  earlier one is its instance \<open>soundType = beep\<close>.

  JavaScript numbers are modelled as follows: times, tempi and the ramp amount are
  \<open>real\<close> (the arithmetic of the source without rounding, and without \<open>NaN\<close> and
  \<open>Infinity\<close>); the counters \<open>currentBeat\<close>, \<open>barCount\<close>, \<open>beatsPerBar\<close> and
  \<open>increaseIntervalBars\<close> are \<open>int\<close>.
\<close>

subsection \<open>What a note sounds like\<close>

text \<open>
  The audio graph a \<open>play\<dots>\<close> method builds, as data: the generators it starts, the
  filter each one passes through, and the gain envelope they share. The samples of a noise
  buffer are random in the source; only the buffer's length in seconds is kept.
\<close>

datatype waveform = sine | square

datatype pitch =
    Fixed real
  | Sweep real real real
    \<comment> \<open>\<open>setValueAtTime f0 time\<close>, then an exponential ramp to \<open>f1\<close> that ends at the third argument\<close>

datatype generator = Oscillator waveform pitch | NoiseBuffer real

datatype biquad =
    bandpass real real
    \<comment> \<open>frequency and Q\<close>
  | highpass real "real option"
    \<comment> \<open>frequency, and Q where the source sets it\<close>

datatype source = Source generator "biquad option" real real
  \<comment> \<open>generator, filter, start time, stop time\<close>

datatype voice = Voice "source list" real real
  \<comment> \<open>the sources into one gain node, the gain at the note's time, and the time at which the
      exponential decay to 0.001 ends\<close>

datatype soundType = beep | click | woodblock | cowbell | kick | snare | drumset

subsection \<open>The engine's fields\<close>

record AudioEngine =
  audioContext :: bool
    \<comment> \<open>\<open>audioContext !== null\<close>\<close>
  isPlaying :: bool
  nextNoteTime :: real
  currentBeat :: int
  barCount :: int
  timerID :: bool
    \<comment> \<open>a timeout for the next \<open>scheduler\<close> call is pending\<close>
  onBeatCallback :: bool
    \<comment> \<open>\<open>onBeatCallback !== null\<close>\<close>
  onBpmChangeCallback :: bool
  bpm :: real
  beatsPerBar :: int
  soundType :: soundType
  increaseAmount :: real
  increaseIntervalBars :: int
  maxBpm :: real

definition scheduleAheadTime :: real where
  "scheduleAheadTime = 0.1"

definition lookahead :: real where
  "lookahead = 25.0"

text \<open>The field initialisers of the class.\<close>

definition new_AudioEngine :: AudioEngine where
  "new_AudioEngine =
     \<lparr> audioContext = False, isPlaying = False, nextNoteTime = 0.0, currentBeat = 0,
       barCount = 0, timerID = False, onBeatCallback = False, onBpmChangeCallback = False,
       bpm = 60, beatsPerBar = 4, soundType = beep, increaseAmount = 0,
       increaseIntervalBars = 0, maxBpm = 200 \<rparr>"

text \<open>
  What the engine does to the world outside it, in the order it does it: a one-shot timer
  armed for a beat notification (beat, time, delay in milliseconds), a note handed to the
  audio backend (beat, time, its voices), a call of the tempo-changed callback, and the
  timeout armed for the next poll (delay in milliseconds).
\<close>

datatype effect =
    BeatTimer int real real
  | Sound int real "voice list"
  | BpmChange real
  | PollTimer real

definition setSettings ::
    "real \<Rightarrow> int \<Rightarrow> real \<Rightarrow> int \<Rightarrow> real \<Rightarrow> AudioEngine \<Rightarrow> AudioEngine" where
  "setSettings b bpb amount interval mx e =
     e\<lparr> bpm := b, beatsPerBar := bpb, increaseAmount := amount,
        increaseIntervalBars := interval, maxBpm := mx \<rparr>"

definition setSoundType :: "soundType \<Rightarrow> AudioEngine \<Rightarrow> AudioEngine" where
  "setSoundType st e = e\<lparr> soundType := st \<rparr>"

subsection \<open>The sounds\<close>

definition playBeep :: "int \<Rightarrow> real \<Rightarrow> voice list" where
  "playBeep beatNumber time =
     (if beatNumber = 0
      then [Voice [Source (Oscillator sine (Fixed 1000)) None time (time + 0.1)] 1 (time + 0.1)]
      else [Voice [Source (Oscillator sine (Fixed 800)) None time (time + 0.1)] 0.6 (time + 0.1)])"

definition playClick :: "int \<Rightarrow> real \<Rightarrow> voice list" where
  "playClick beatNumber time =
     (if beatNumber = 0
      then [Voice [Source (Oscillator sine (Fixed 1500)) None time (time + 0.02)] 0.8 (time + 0.02)]
      else [Voice [Source (Oscillator sine (Fixed 1200)) None time (time + 0.02)] 0.5 (time + 0.02)])"

definition playWoodblock :: "int \<Rightarrow> real \<Rightarrow> voice list" where
  "playWoodblock beatNumber time =
     (if beatNumber = 0
      then [Voice [Source (Oscillator square (Fixed 800)) (Some (bandpass 1500 20)) time (time + 0.05)]
              0.7 (time + 0.05)]
      else [Voice [Source (Oscillator square (Fixed 600)) (Some (bandpass 1200 20)) time (time + 0.05)]
              0.5 (time + 0.05)])"

definition playCowbell :: "int \<Rightarrow> real \<Rightarrow> voice list" where
  "playCowbell beatNumber time =
     (if beatNumber = 0
      then [Voice [Source (Oscillator square (Fixed 540)) (Some (bandpass 800 10)) time (time + 0.08),
                   Source (Oscillator square (Fixed 800)) (Some (bandpass 800 10)) time (time + 0.08)]
              0.6 (time + 0.08)]
      else [Voice [Source (Oscillator square (Fixed 500)) (Some (bandpass 800 10)) time (time + 0.08),
                   Source (Oscillator square (Fixed 750)) (Some (bandpass 800 10)) time (time + 0.08)]
              0.4 (time + 0.08)])"

definition playKick :: "int \<Rightarrow> real \<Rightarrow> voice list" where
  "playKick beatNumber time =
     (if beatNumber = 0
      then [Voice [Source (Oscillator sine (Sweep 150 50 (time + 0.1))) None time (time + 0.15)]
              1.2 (time + 0.15)]
      else [Voice [Source (Oscillator sine (Sweep 120 40 (time + 0.08))) None time (time + 0.15)]
              0.8 (time + 0.15)])"

definition playSnare :: "int \<Rightarrow> real \<Rightarrow> voice list" where
  "playSnare beatNumber time =
     [Voice [Source (NoiseBuffer 0.15) (Some (highpass 1000 None)) time (time + 0.15),
             Source (Oscillator sine (Fixed 200)) None time (time + 0.08)]
        (if beatNumber = 0 then 0.8 else 0.5) (time + 0.15)]"

definition playHiHat :: "real \<Rightarrow> real \<Rightarrow> voice list" where
  "playHiHat time volume =
     [Voice [Source (NoiseBuffer 0.05) (Some (highpass 7000 (Some 1))) time (time + 0.05)]
        volume (time + 0.05)]"

definition playDrumset :: "AudioEngine \<Rightarrow> int \<Rightarrow> real \<Rightarrow> voice list" where
  "playDrumset e beatNumber time =
     (let secondsPerBeat = 60.0 / bpm e;
          eighthNoteTime = secondsPerBeat / 2
      in (if beatNumber = 0 \<or> beatNumber = 2
          then [Voice [Source (Oscillator sine (Sweep 150 50 (time + 0.1))) None time (time + 0.15)]
                  1.2 (time + 0.15)]
          else [])
       @ (if beatNumber = 1 \<or> beatNumber = 3
          then [Voice [Source (NoiseBuffer 0.15) (Some (highpass 1000 None)) time (time + 0.15),
                       Source (Oscillator sine (Fixed 200)) None time (time + 0.08)]
                  0.8 (time + 0.15)]
          else [])
       @ playHiHat time 0.3
       @ playHiHat (time + eighthNoteTime) 0.2)"

text \<open>The \<open>switch\<close> of \<open>scheduleNote\<close>.\<close>

definition play :: "AudioEngine \<Rightarrow> int \<Rightarrow> real \<Rightarrow> voice list" where
  "play e beatNumber time =
     (case soundType e of
        beep \<Rightarrow> playBeep beatNumber time
      | click \<Rightarrow> playClick beatNumber time
      | woodblock \<Rightarrow> playWoodblock beatNumber time
      | cowbell \<Rightarrow> playCowbell beatNumber time
      | kick \<Rightarrow> playKick beatNumber time
      | snare \<Rightarrow> playSnare beatNumber time
      | drumset \<Rightarrow> playDrumset e beatNumber time)"

subsection \<open>Scheduling\<close>

text \<open>
  The sound backend is a parameter: \<open>throws beat time\<close> says that building or starting the
  audio graph of that note raises. \<open>scheduleNote\<close> has no handler, so the exception leaves
  it after the beat timer has been armed; its result is \<open>Inl\<close> of the effects done until
  then. Nothing of a failed note is recorded as sound. The clock reading \<open>now\<close> is
  \<open>audioContext.currentTime\<close>, one value for the whole call.
\<close>

type_synonym backend = "int \<Rightarrow> real \<Rightarrow> bool"

definition scheduleNote ::
    "backend \<Rightarrow> real \<Rightarrow> AudioEngine \<Rightarrow> int \<Rightarrow> real \<Rightarrow> effect list + effect list" where
  "scheduleNote throws now e beatNumber time =
     (if \<not> audioContext e then Inr []
      else
        let ui = (if onBeatCallback e
                  then [BeatTimer beatNumber time (max 0 ((time - now) * 1000))]
                  else [])
        in if throws beatNumber time then Inl ui
           else Inr (ui @ [Sound beatNumber time (play e beatNumber time)]))"

definition handleSpeedIncrease :: "AudioEngine \<Rightarrow> effect list \<times> AudioEngine" where
  "handleSpeedIncrease e =
     (let newBpm = min (bpm e + increaseAmount e) (maxBpm e)
      in if newBpm \<noteq> bpm e
         then (if onBpmChangeCallback e then [BpmChange newBpm] else [], e\<lparr> bpm := newBpm \<rparr>)
         else ([], e))"

text \<open>
  JavaScript's \<open>%\<close> on integers: the remainder has the sign of the dividend.
\<close>

definition js_rem :: "int \<Rightarrow> int \<Rightarrow> int" where
  "js_rem a b = sgn a * (\<bar>a\<bar> mod \<bar>b\<bar>)"

definition nextNote :: "AudioEngine \<Rightarrow> effect list \<times> AudioEngine" where
  "nextNote e =
     (let secondsPerBeat = 60.0 / bpm e;
          e1 = e\<lparr> nextNoteTime := nextNoteTime e + secondsPerBeat, currentBeat := currentBeat e + 1 \<rparr>
      in if currentBeat e1 = beatsPerBar e1
         then
           let e2 = e1\<lparr> currentBeat := 0, barCount := barCount e1 + 1 \<rparr>
           in if increaseAmount e2 > 0 \<and> increaseIntervalBars e2 > 0
              then if js_rem (barCount e2) (increaseIntervalBars e2) = 0
                   then handleSpeedIncrease e2
                   else ([], e2)
              else ([], e2)
         else ([], e1))"

text \<open>
  The \<open>while\<close> loop of \<open>scheduler\<close>, with the effects done so far. It need not end (a tempo
  that is not positive never moves \<open>nextNoteTime\<close> past the horizon), so not returning is the
  value \<open>None\<close>. \<open>Some (Inl \<dots>)\<close> is an exception that left the loop, with the state at that
  moment.
\<close>

partial_function (option) scheduler_loop ::
    "backend \<Rightarrow> real \<Rightarrow> effect list \<times> AudioEngine
       \<Rightarrow> (effect list \<times> AudioEngine + effect list \<times> AudioEngine) option" where
  "scheduler_loop throws now st =
     (if nextNoteTime (snd st) < now + scheduleAheadTime
      then (case scheduleNote throws now (snd st) (currentBeat (snd st)) (nextNoteTime (snd st)) of
              Inl fx \<Rightarrow> Some (Inl (fst st @ fx, snd st))
            | Inr fx \<Rightarrow>
                scheduler_loop throws now
                  (fst st @ fx @ fst (nextNote (snd st)), snd (nextNote (snd st))))
      else Some (Inr st))"

definition scheduler ::
    "backend \<Rightarrow> real \<Rightarrow> effect list \<times> AudioEngine
       \<Rightarrow> (effect list \<times> AudioEngine + effect list \<times> AudioEngine) option" where
  "scheduler throws now st =
     (if \<not> isPlaying (snd st) \<or> \<not> audioContext (snd st) then Some (Inr st)
      else (case scheduler_loop throws now st of
              None \<Rightarrow> None
            | Some (Inl st') \<Rightarrow> Some (Inl st')
            | Some (Inr st') \<Rightarrow>
                Some (Inr (fst st' @ [PollTimer lookahead], (snd st')\<lparr> timerID := True \<rparr>))))"

definition start ::
    "backend \<Rightarrow> real \<Rightarrow> effect list \<times> AudioEngine
       \<Rightarrow> (effect list \<times> AudioEngine + effect list \<times> AudioEngine) option" where
  "start throws now st =
     (if isPlaying (snd st) then Some (Inr st)
      else scheduler throws now
             (fst st, (snd st)\<lparr> audioContext := True, isPlaying := True, currentBeat := 0,
                               barCount := 0, nextNoteTime := now + 0.1 \<rparr>))"

definition stop :: "AudioEngine \<Rightarrow> AudioEngine" where
  "stop e = e\<lparr> isPlaying := False, timerID := False \<rparr>"

subsection \<open>Runs of the cursor\<close>

text \<open>
  The state after \<open>n\<close> calls of \<open>nextNote\<close> with no change of the settings in between, and
  the tempo-changed notifications issued on the way.
\<close>

primrec nextNotes :: "nat \<Rightarrow> AudioEngine \<Rightarrow> AudioEngine" where
  "nextNotes 0 e = e"
| "nextNotes (Suc n) e = snd (nextNote (nextNotes n e))"

primrec nextNotes_fx :: "nat \<Rightarrow> AudioEngine \<Rightarrow> effect list" where
  "nextNotes_fx 0 e = []"
| "nextNotes_fx (Suc n) e = nextNotes_fx n e @ fst (nextNote (nextNotes n e))"

text \<open>The tempo after \<open>k\<close> ramp steps, in closed form.\<close>

definition ramped :: "AudioEngine \<Rightarrow> int \<Rightarrow> real" where
  "ramped e k = (if k \<le> 0 then bpm e else min (bpm e + of_int k * increaseAmount e) (maxBpm e))"


section \<open>Properties of the cursor\<close>

subsection \<open>One advance\<close>

lemma nextNote_settings:
  "beatsPerBar (snd (nextNote e)) = beatsPerBar e"
  "increaseAmount (snd (nextNote e)) = increaseAmount e"
  "increaseIntervalBars (snd (nextNote e)) = increaseIntervalBars e"
  "maxBpm (snd (nextNote e)) = maxBpm e"
  "soundType (snd (nextNote e)) = soundType e"
  "isPlaying (snd (nextNote e)) = isPlaying e"
  "audioContext (snd (nextNote e)) = audioContext e"
  "timerID (snd (nextNote e)) = timerID e"
  "onBeatCallback (snd (nextNote e)) = onBeatCallback e"
  "onBpmChangeCallback (snd (nextNote e)) = onBpmChangeCallback e"
  by (simp_all add: nextNote_def handleSpeedIncrease_def Let_def)

lemma nextNotes_settings:
  "beatsPerBar (nextNotes n e) = beatsPerBar e"
  "increaseAmount (nextNotes n e) = increaseAmount e"
  "increaseIntervalBars (nextNotes n e) = increaseIntervalBars e"
  "maxBpm (nextNotes n e) = maxBpm e"
  "soundType (nextNotes n e) = soundType e"
  "isPlaying (nextNotes n e) = isPlaying e"
  "audioContext (nextNotes n e) = audioContext e"
  "timerID (nextNotes n e) = timerID e"
  "onBeatCallback (nextNotes n e) = onBeatCallback e"
  "onBpmChangeCallback (nextNotes n e) = onBpmChangeCallback e"
  by (induction n, simp_all add: nextNote_settings)+

lemma nextNote_no_bar:
  assumes "currentBeat e + 1 \<noteq> beatsPerBar e"
  shows "nextNote e = ([], e\<lparr> nextNoteTime := nextNoteTime e + 60 / bpm e, currentBeat := currentBeat e + 1 \<rparr>)"
  using assms by (simp add: nextNote_def Let_def)

lemma stuck_step:
  assumes "beatsPerBar e \<le> currentBeat e"
  shows "currentBeat (nextNotes n e) = currentBeat e + int n \<and> barCount (nextNotes n e) = barCount e
     \<and> bpm (nextNotes n e) = bpm e \<and> nextNotes_fx n e = []"
proof (induction n)
  case 0
  show ?case by simp
next
  case (Suc n)
  have "currentBeat (nextNotes n e) + 1 \<noteq> beatsPerBar (nextNotes n e)"
    using Suc assms by (simp add: nextNotes_settings)
  from nextNote_no_bar [OF this] Suc show ?case by simp
qed

lemma js_rem_0_iff: "js_rem a b = 0 \<longleftrightarrow> a mod b = 0"
proof -
  have "js_rem a b = 0 \<longleftrightarrow> \<bar>a\<bar> mod \<bar>b\<bar> = 0"
    by (cases "a = 0") (auto simp: js_rem_def sgn_if)
  also have "\<dots> \<longleftrightarrow> \<bar>b\<bar> dvd \<bar>a\<bar>" by (simp add: mod_eq_0_iff_dvd)
  also have "\<dots> \<longleftrightarrow> b dvd a" by simp
  also have "\<dots> \<longleftrightarrow> a mod b = 0" by (simp add: mod_eq_0_iff_dvd)
  finally show ?thesis .
qed

lemma int_step_wrap:
  fixes x B :: int
  assumes "0 < B" "x mod B + 1 = B"
  shows "(x + 1) mod B = 0" "(x + 1) div B = x div B + 1"
proof -
  have e: "x = B * (x div B) + x mod B" by simp
  have "x + 1 = B * (x div B) + (x mod B + 1)" using e by linarith
  also have "\<dots> = B * (x div B) + B" using assms(2) by simp
  also have "\<dots> = B * (x div B + 1)" by (simp add: algebra_simps)
  finally have "x + 1 = B * (x div B + 1)" .
  then show "(x + 1) mod B = 0" "(x + 1) div B = x div B + 1"
    using assms(1) by simp_all
qed

lemma int_step_plain:
  fixes x B :: int
  assumes "0 < B" "x mod B + 1 \<noteq> B"
  shows "(x + 1) mod B = x mod B + 1" "(x + 1) div B = x div B"
proof -
  have r: "0 \<le> x mod B + 1" "x mod B + 1 < B"
    using assms pos_mod_bound [of B x] pos_mod_sign [of B x] by linarith+
  have e: "x = B * (x div B) + x mod B" by simp
  have eq: "x + 1 = B * (x div B) + (x mod B + 1)" using e by linarith
  show "(x + 1) mod B = x mod B + 1" by (rule int_mod_pos_eq [OF eq r])
  show "(x + 1) div B = x div B" by (rule int_div_pos_eq [OF eq r])
qed

lemma nextNote_time: "nextNoteTime (snd (nextNote e)) = nextNoteTime e + 60 / bpm e"
  by (simp add: nextNote_def handleSpeedIncrease_def Let_def)

lemma nextNote_bar:
  assumes "currentBeat e + 1 = beatsPerBar e"
  shows "currentBeat (snd (nextNote e)) = 0" "barCount (snd (nextNote e)) = barCount e + 1"
  using assms by (simp_all add: nextNote_def handleSpeedIncrease_def Let_def)

lemma nextNote_bar_ramp:
  assumes "currentBeat e + 1 = beatsPerBar e" "0 < increaseAmount e" "0 < increaseIntervalBars e"
    "(barCount e + 1) mod increaseIntervalBars e = 0"
  shows "bpm (snd (nextNote e)) = min (bpm e + increaseAmount e) (maxBpm e)"
    "fst (nextNote e) =
       (if min (bpm e + increaseAmount e) (maxBpm e) \<noteq> bpm e \<and> onBpmChangeCallback e
        then [BpmChange (min (bpm e + increaseAmount e) (maxBpm e))] else [])"
  using assms by (simp_all add: nextNote_def handleSpeedIncrease_def Let_def js_rem_0_iff)

lemma nextNote_bar_no_ramp:
  assumes "currentBeat e + 1 = beatsPerBar e"
    "\<not> (0 < increaseAmount e \<and> 0 < increaseIntervalBars e
        \<and> (barCount e + 1) mod increaseIntervalBars e = 0)"
  shows "bpm (snd (nextNote e)) = bpm e" "fst (nextNote e) = []"
  using assms by (auto simp add: nextNote_def handleSpeedIncrease_def Let_def js_rem_0_iff)

lemma nextNote_plain:
  assumes "currentBeat e + 1 \<noteq> beatsPerBar e"
  shows "currentBeat (snd (nextNote e)) = currentBeat e + 1" "barCount (snd (nextNote e)) = barCount e"
    "bpm (snd (nextNote e)) = bpm e" "fst (nextNote e) = []"
  using assms by (simp_all add: nextNote_def Let_def)

lemma cursor_closed:
  assumes "0 < beatsPerBar e" "0 \<le> currentBeat e" "currentBeat e < beatsPerBar e"
  shows "currentBeat (nextNotes n e) = (currentBeat e + int n) mod beatsPerBar e
       \<and> barCount (nextNotes n e) = barCount e + (currentBeat e + int n) div beatsPerBar e"
proof (induction n)
  case 0
  show ?case using assms by simp
next
  case (Suc n)
  let ?e = "nextNotes n e"
  let ?x = "currentBeat e + int n"
  let ?B = "beatsPerBar e"
  have B: "beatsPerBar ?e = ?B" by (simp add: nextNotes_settings)
  have s: "currentBeat e + int (Suc n) = ?x + 1" by simp
  show ?case
  proof (cases "?x mod ?B + 1 = ?B")
    case True
    then have "currentBeat ?e + 1 = beatsPerBar ?e" using Suc B by simp
    from nextNote_bar [OF this] int_step_wrap [OF assms(1) True] Suc
    show ?thesis unfolding s by simp
  next
    case False
    then have "currentBeat ?e + 1 \<noteq> beatsPerBar ?e" using Suc B by simp
    from nextNote_plain [OF this] int_step_plain [OF assms(1) False] Suc
    show ?thesis unfolding s by simp
  qed
qed

lemma ramped_Suc:
  assumes "0 \<le> k" "0 \<le> increaseAmount e"
  shows "ramped e (k + 1) = min (ramped e k + increaseAmount e) (maxBpm e)"
proof (cases "k = 0")
  case True
  then show ?thesis by (simp add: ramped_def)
next
  case False
  then have "0 < k" using assms by simp
  then show ?thesis using assms(2)
    by (simp add: ramped_def algebra_simps min_def)
qed

lemma rem_zero_step:
  fixes x I :: int
  assumes "0 < I"
  shows "(x + 1) mod I = 0 \<longleftrightarrow> x mod I + 1 = I"
proof
  assume z: "(x + 1) mod I = 0"
  show "x mod I + 1 = I"
  proof (rule ccontr)
    assume "x mod I + 1 \<noteq> I"
    from int_step_plain(1) [OF assms this] z pos_mod_sign [OF assms, of x]
    show False by simp
  qed
next
  assume "x mod I + 1 = I"
  from int_step_wrap(1) [OF assms this] show "(x + 1) mod I = 0" .
qed

lemma barCount_mono:
  assumes "0 < beatsPerBar e" "0 \<le> currentBeat e" "currentBeat e < beatsPerBar e"
  shows "barCount e \<le> barCount (nextNotes n e)"
proof -
  have "0 \<le> (currentBeat e + int n) div beatsPerBar e"
    using assms by (simp add: pos_imp_zdiv_nonneg_iff)
  then show ?thesis using cursor_closed [OF assms, of n] by simp
qed

lemma bpm_closed:
  assumes "0 < beatsPerBar e" "0 \<le> currentBeat e" "currentBeat e < beatsPerBar e"
    and "0 < increaseAmount e" "0 < increaseIntervalBars e"
  shows "bpm (nextNotes n e)
       = ramped e (barCount (nextNotes n e) div increaseIntervalBars e
                    - barCount e div increaseIntervalBars e)"
proof (induction n)
  case 0
  show ?case by (simp add: ramped_def)
next
  case (Suc n)
  let ?e = "nextNotes n e"
  let ?I = "increaseIntervalBars e"
  let ?k = "barCount ?e div ?I - barCount e div ?I"
  have st: "beatsPerBar ?e = beatsPerBar e" "increaseAmount ?e = increaseAmount e"
    "increaseIntervalBars ?e = ?I" "maxBpm ?e = maxBpm e"
    by (simp_all add: nextNotes_settings)
  have k0: "0 \<le> ?k"
    using barCount_mono [OF assms(1-3), of n] zdiv_mono1 [OF _ assms(5)] by simp
  show ?case
  proof (cases "currentBeat ?e + 1 = beatsPerBar ?e")
    case False
    from nextNote_plain [OF False] Suc show ?thesis by simp
  next
    case bar: True
    show ?thesis
    proof (cases "(barCount ?e + 1) mod ?I = 0")
      case True
      then have w: "barCount ?e mod ?I + 1 = ?I" using rem_zero_step [OF assms(5)] by simp
      have "bpm (nextNotes (Suc n) e) = min (bpm ?e + increaseAmount e) (maxBpm e)"
        using nextNote_bar_ramp(1) [OF bar] True assms(4,5) st by simp
      also have "\<dots> = ramped e (?k + 1)"
        using ramped_Suc [OF k0, of e] assms(4) Suc by simp
      also have "?k + 1 = barCount (nextNotes (Suc n) e) div ?I - barCount e div ?I"
        using nextNote_bar(2) [OF bar] int_step_wrap(2) [OF assms(5) w] by simp
      finally show ?thesis .
    next
      case False
      then have w: "barCount ?e mod ?I + 1 \<noteq> ?I" using rem_zero_step [OF assms(5)] by simp
      have "bpm (nextNotes (Suc n) e) = bpm ?e"
        using nextNote_bar_no_ramp(1) [OF bar] False st by simp
      moreover have "barCount (nextNotes (Suc n) e) div ?I = barCount ?e div ?I"
        using nextNote_bar(2) [OF bar] int_step_plain(2) [OF assms(5) w] by simp
      ultimately show ?thesis using Suc by simp
    qed
  qed
qed

lemma nextNote_below_ceiling:
  assumes "bpm e \<le> maxBpm e"
  shows "bpm e \<le> bpm (snd (nextNote e))" "bpm (snd (nextNote e)) \<le> maxBpm e"
  using assms by (auto simp add: nextNote_def handleSpeedIncrease_def Let_def)

lemma nextNote_at_ceiling:
  assumes "bpm e = maxBpm e"
  shows "bpm (snd (nextNote e)) = maxBpm e" "fst (nextNote e) = []"
  using assms by (auto simp add: nextNote_def handleSpeedIncrease_def Let_def)

lemma nextNotes_below_ceiling:
  assumes "bpm e \<le> maxBpm e"
  shows "bpm (nextNotes n e) \<le> maxBpm e"
proof (induction n)
  case 0
  show ?case using assms by simp
next
  case (Suc n)
  then have "bpm (nextNotes n e) \<le> maxBpm (nextNotes n e)" by (simp add: nextNotes_settings)
  from nextNote_below_ceiling(2) [OF this] show ?case by (simp add: nextNotes_settings)
qed

lemma nextNotes_at_ceiling:
  assumes "bpm e = maxBpm e"
  shows "bpm (nextNotes n e) = maxBpm e"
proof (induction n)
  case 0
  show ?case using assms by simp
next
  case (Suc n)
  then have "bpm (nextNotes n e) = maxBpm (nextNotes n e)" by (simp add: nextNotes_settings)
  from nextNote_at_ceiling(1) [OF this] show ?case by (simp add: nextNotes_settings)
qed

lemma nextNotes_add: "nextNotes (n + m) e = nextNotes m (nextNotes n e)"
  by (induction m) simp_all

lemma nextNotes_fx_add: "nextNotes_fx (n + m) e = nextNotes_fx n e @ nextNotes_fx m (nextNotes n e)"
  by (induction m) (simp_all add: nextNotes_add)

lemma nextNotes_fx_at_ceiling:
  assumes "bpm e = maxBpm e"
  shows "nextNotes_fx n e = []"
proof (induction n)
  case 0
  show ?case by simp
next
  case (Suc n)
  have "bpm (nextNotes n e) = maxBpm (nextNotes n e)"
    using nextNotes_at_ceiling [OF assms, of n] by (simp add: nextNotes_settings)
  from nextNote_at_ceiling(2) [OF this] Suc show ?case by simp
qed

lemma fresh_bars:
  assumes "0 < beatsPerBar e" "currentBeat e = 0" "barCount e = 0"
  shows "barCount (nextNotes n e) = int n div beatsPerBar e"
  using cursor_closed [of e n] assms by simp

lemma fresh_bpm:
  assumes "0 < beatsPerBar e" "currentBeat e = 0" "barCount e = 0"
    and "0 < increaseAmount e" "0 < increaseIntervalBars e"
  shows "bpm (nextNotes n e) = ramped e (barCount (nextNotes n e) div increaseIntervalBars e)"
  using bpm_closed [of e n] assms by simp

lemma first_ramp:
  assumes "0 < beatsPerBar e" "currentBeat e = 0" "barCount e = 0"
    and "0 < increaseAmount e" "0 < increaseIntervalBars e"
  shows "(barCount (nextNotes n e) < increaseIntervalBars e \<longrightarrow> bpm (nextNotes n e) = bpm e)
       \<and> (barCount (nextNotes n e) = increaseIntervalBars e
            \<longrightarrow> bpm (nextNotes n e) = min (bpm e + increaseAmount e) (maxBpm e))
       \<and> barCount (nextNotes (nat (increaseIntervalBars e * beatsPerBar e)) e) = increaseIntervalBars e"
proof -
  let ?I = "increaseIntervalBars e"
  have b0: "0 \<le> barCount (nextNotes n e)"
    using fresh_bars [OF assms(1-3), of n] assms(1) by (simp add: pos_imp_zdiv_nonneg_iff)
  have 1: "barCount (nextNotes n e) < ?I \<Longrightarrow> bpm (nextNotes n e) = bpm e"
    using fresh_bpm [OF assms, of n] b0 by (simp add: ramped_def)
  have 2: "barCount (nextNotes n e) = ?I \<Longrightarrow> bpm (nextNotes n e) = min (bpm e + increaseAmount e) (maxBpm e)"
    using fresh_bpm [OF assms, of n] assms(5) by (simp add: ramped_def)
  have "0 \<le> ?I * beatsPerBar e" using assms by simp
  then have 3: "barCount (nextNotes (nat (?I * beatsPerBar e)) e) = ?I"
    using fresh_bars [OF assms(1-3), of "nat (?I * beatsPerBar e)"] assms(1) by simp
  show ?thesis using 1 2 3 by blast
qed

lemma nextNote_quiet:
  assumes "bpm (snd (nextNote e)) = bpm e"
  shows "fst (nextNote e) = []"
  using assms by (auto simp add: nextNote_def handleSpeedIncrease_def Let_def split: if_splits)

lemma fresh_bars_mono:
  assumes "0 < beatsPerBar e" "currentBeat e = 0" "barCount e = 0" "j \<le> n"
  shows "barCount (nextNotes j e) \<le> barCount (nextNotes n e)"
  using fresh_bars [OF assms(1-3)] assms(1,4) by (simp add: zdiv_mono1)

lemma quiet_before_first_ramp:
  assumes "0 < beatsPerBar e" "currentBeat e = 0" "barCount e = 0"
    and "0 < increaseAmount e" "0 < increaseIntervalBars e"
    and "barCount (nextNotes n e) < increaseIntervalBars e"
  shows "nextNotes_fx n e = []"
  using assms(6)
proof (induction n)
  case 0
  show ?case by simp
next
  case (Suc n)
  have le: "barCount (nextNotes n e) \<le> barCount (nextNotes (Suc n) e)"
    by (rule fresh_bars_mono [OF assms(1-3)]) simp
  then have lt: "barCount (nextNotes n e) < increaseIntervalBars e" using Suc.prems by simp
  have "bpm (nextNotes (Suc n) e) = bpm e" "bpm (nextNotes n e) = bpm e"
    using first_ramp [OF assms(1-5), of "Suc n"] first_ramp [OF assms(1-5), of n] Suc.prems lt
    by blast+
  then have "bpm (snd (nextNote (nextNotes n e))) = bpm (nextNotes n e)" by simp
  from nextNote_quiet [OF this] Suc.IH [OF lt] show ?case by simp
qed

section \<open>The claims\<close>

text \<open>
  C4. With the settings unchanged, \<open>beatsPerBar\<close> at least 1 and the beat index in range (as
  \<open>start\<close> leaves it), the beat index of the \<open>n\<close>-th advance is
  \<open>(currentBeat + n) mod beatsPerBar\<close>: it stays in \<open>[0, beatsPerBar)\<close>, and each advance
  moves it to its successor, or to 0 from \<open>beatsPerBar - 1\<close>, so the beats cycle
  \<open>0, 1, \<dots>, beatsPerBar - 1, 0, \<dots>\<close> with no skip and no repeat.
\<close>

theorem beat_index_cycles:
  assumes "0 < beatsPerBar e" "0 \<le> currentBeat e" "currentBeat e < beatsPerBar e"
  shows "beatsPerBar (nextNotes n e) = beatsPerBar e
       \<and> currentBeat (nextNotes n e) = (currentBeat e + int n) mod beatsPerBar e
       \<and> 0 \<le> currentBeat (nextNotes n e) \<and> currentBeat (nextNotes n e) < beatsPerBar e
       \<and> currentBeat (nextNotes (Suc n) e)
           = (if currentBeat (nextNotes n e) = beatsPerBar e - 1 then 0
              else currentBeat (nextNotes n e) + 1)"
proof -
  let ?e = "nextNotes n e"
  have B: "beatsPerBar ?e = beatsPerBar e" by (simp add: nextNotes_settings)
  have c: "currentBeat ?e = (currentBeat e + int n) mod beatsPerBar e"
    using cursor_closed [OF assms, of n] by simp
  have r: "0 \<le> currentBeat ?e" "currentBeat ?e < beatsPerBar e"
    using c assms(1) by simp_all
  have "currentBeat (nextNotes (Suc n) e)
      = (if currentBeat ?e = beatsPerBar e - 1 then 0 else currentBeat ?e + 1)"
  proof (cases "currentBeat ?e + 1 = beatsPerBar ?e")
    case True
    from nextNote_bar(1) [OF True] True B show ?thesis by simp
  next
    case False
    from nextNote_plain(1) [OF False] False B show ?thesis by auto
  qed
  with B c r show ?thesis by simp
qed

theorem beat_index_cycles_witness:
  "map (\<lambda>n. currentBeat (nextNotes n new_AudioEngine)) [0, 1, 2, 3, 4, 5, 6, 7, 8]
     = [0, 1, 2, 3, 0, 1, 2, 3, 0]"
  using beat_index_cycles [of new_AudioEngine]
  by (simp add: new_AudioEngine_def)

text \<open>
  C10. A bar is complete when the incremented beat index equals \<open>beatsPerBar\<close>. Once
  \<open>setSettings\<close> has put \<open>beatsPerBar\<close> at or below the current beat index, the test never
  succeeds again: every advance adds one to the beat index, \<open>barCount\<close> and the tempo stay
  as they are, no tempo change is notified, and the beat index exceeds every bound.
\<close>

theorem beat_index_never_resets:
  assumes "b \<le> currentBeat e"
  shows "currentBeat (nextNotes n (setSettings t b a i m e)) = currentBeat e + int n
       \<and> currentBeat (nextNotes (Suc n) (setSettings t b a i m e))
           = currentBeat (nextNotes n (setSettings t b a i m e)) + 1
       \<and> barCount (nextNotes n (setSettings t b a i m e)) = barCount e
       \<and> bpm (nextNotes n (setSettings t b a i m e)) = t
       \<and> nextNotes_fx n (setSettings t b a i m e) = []
       \<and> (\<exists>k. bound < currentBeat (nextNotes k (setSettings t b a i m e)))"
proof -
  let ?e = "setSettings t b a i m e"
  have le: "beatsPerBar ?e \<le> currentBeat ?e"
    using assms by (simp add: setSettings_def)
  have f: "currentBeat ?e = currentBeat e" "barCount ?e = barCount e" "bpm ?e = t"
    by (simp_all add: setSettings_def)
  note st = stuck_step [OF le]
  have "bound < currentBeat (nextNotes (nat (bound - currentBeat e) + 1) ?e)"
    using st [of "nat (bound - currentBeat e) + 1"] f by simp
  then have ex: "\<exists>k. bound < currentBeat (nextNotes k ?e)" ..
  show ?thesis using st [of n] st [of "Suc n"] f ex by simp
qed

theorem beat_index_never_resets_witness:
  "map (\<lambda>n. currentBeat (nextNotes n (setSettings 60 2 5 1 200 (new_AudioEngine\<lparr> currentBeat := 3 \<rparr>))))
       [0, 1, 2, 3]
     = [3, 4, 5, 6]
   \<and> barCount (nextNotes 3 (setSettings 60 2 5 1 200 (new_AudioEngine\<lparr> currentBeat := 3 \<rparr>))) = 0
   \<and> bpm (nextNotes 3 (setSettings 60 2 5 1 200 (new_AudioEngine\<lparr> currentBeat := 3 \<rparr>))) = 60"
  using beat_index_never_resets [of 2 "new_AudioEngine\<lparr> currentBeat := 3 \<rparr>" _ 60 5 1 200]
  by (simp add: new_AudioEngine_def)

text \<open>
  C2. The tempo update of an advance that completes a bar (\<open>currentBeat + 1 = beatsPerBar\<close>),
  for settings in their declared ranges (\<open>increaseAmount\<close> and \<open>increaseIntervalBars\<close> not
  negative) and a registered tempo-changed callback. \<open>barCount\<close> is incremented first. There
  is no change and no notification if \<open>increaseAmount = 0\<close> or \<open>increaseIntervalBars = 0\<close>, nor
  if the new \<open>barCount\<close> is not a multiple of \<open>increaseIntervalBars\<close>. Otherwise the tempo
  becomes \<open>min (bpm + increaseAmount) maxBpm\<close>, and the notification is issued exactly when
  that differs from the old tempo; if the old tempo exceeds \<open>maxBpm\<close>, the new tempo is
  \<open>maxBpm\<close>, lower than before, and the decrease is notified. From a fresh cursor the tempo
  stays and nothing is notified while fewer than \<open>increaseIntervalBars\<close> bars are complete;
  the first ramp is at bar \<open>increaseIntervalBars\<close>, reached after
  \<open>increaseIntervalBars * beatsPerBar\<close> advances.
\<close>

theorem tempo_update_rule:
  assumes "0 \<le> increaseAmount e" "0 \<le> increaseIntervalBars e" "onBpmChangeCallback e"
  shows
   "(currentBeat e + 1 = beatsPerBar e \<longrightarrow>
       barCount (snd (nextNote e)) = barCount e + 1
     \<and> (increaseAmount e = 0 \<or> increaseIntervalBars e = 0
          \<longrightarrow> bpm (snd (nextNote e)) = bpm e \<and> fst (nextNote e) = [])
     \<and> (increaseAmount e \<noteq> 0 \<and> increaseIntervalBars e \<noteq> 0
          \<and> (barCount e + 1) mod increaseIntervalBars e \<noteq> 0
          \<longrightarrow> bpm (snd (nextNote e)) = bpm e \<and> fst (nextNote e) = [])
     \<and> (increaseAmount e \<noteq> 0 \<and> increaseIntervalBars e \<noteq> 0
          \<and> (barCount e + 1) mod increaseIntervalBars e = 0
          \<longrightarrow> bpm (snd (nextNote e)) = min (bpm e + increaseAmount e) (maxBpm e)
            \<and> fst (nextNote e)
                = (if min (bpm e + increaseAmount e) (maxBpm e) \<noteq> bpm e
                   then [BpmChange (min (bpm e + increaseAmount e) (maxBpm e))] else [])
            \<and> (maxBpm e < bpm e
                 \<longrightarrow> bpm (snd (nextNote e)) = maxBpm e \<and> bpm (snd (nextNote e)) < bpm e
                   \<and> fst (nextNote e) = [BpmChange (maxBpm e)])))
    \<and> (0 < beatsPerBar e \<and> currentBeat e = 0 \<and> barCount e = 0
          \<and> increaseAmount e \<noteq> 0 \<and> increaseIntervalBars e \<noteq> 0 \<longrightarrow>
         (barCount (nextNotes n e) < increaseIntervalBars e
            \<longrightarrow> bpm (nextNotes n e) = bpm e \<and> nextNotes_fx n e = [])
       \<and> (barCount (nextNotes n e) = increaseIntervalBars e
            \<longrightarrow> bpm (nextNotes n e) = min (bpm e + increaseAmount e) (maxBpm e))
       \<and> barCount (nextNotes (nat (increaseIntervalBars e * beatsPerBar e)) e)
            = increaseIntervalBars e)"
  (is "(?bar \<longrightarrow> ?X1 \<and> ?X2 \<and> ?X3 \<and> ?X4) \<and> (?fresh \<longrightarrow> ?Y)")
proof -
  let ?c = "min (bpm e + increaseAmount e) (maxBpm e)"
  have A: "barCount (snd (nextNote e)) = barCount e + 1"
    if "currentBeat e + 1 = beatsPerBar e"
    using nextNote_bar(2) [OF that] .
  have B: "bpm (snd (nextNote e)) = bpm e \<and> fst (nextNote e) = []"
    if "currentBeat e + 1 = beatsPerBar e"
      and "increaseAmount e = 0 \<or> increaseIntervalBars e = 0
           \<or> (barCount e + 1) mod increaseIntervalBars e \<noteq> 0"
    using nextNote_bar_no_ramp [OF that(1)] that(2) by auto
  have C: "bpm (snd (nextNote e)) = ?c
         \<and> fst (nextNote e) = (if ?c \<noteq> bpm e then [BpmChange ?c] else [])"
    if "currentBeat e + 1 = beatsPerBar e"
      and "increaseAmount e \<noteq> 0" "increaseIntervalBars e \<noteq> 0"
      and "(barCount e + 1) mod increaseIntervalBars e = 0"
  proof -
    have pos: "0 < increaseAmount e" "0 < increaseIntervalBars e"
      using assms(1,2) that(2,3) by simp_all
    from nextNote_bar_ramp [OF that(1) pos that(4)] assms(3) show ?thesis by simp
  qed
  have D: "bpm (snd (nextNote e)) = maxBpm e \<and> bpm (snd (nextNote e)) < bpm e
         \<and> fst (nextNote e) = [BpmChange (maxBpm e)]"
    if "currentBeat e + 1 = beatsPerBar e"
      and "increaseAmount e \<noteq> 0" "increaseIntervalBars e \<noteq> 0"
      and "(barCount e + 1) mod increaseIntervalBars e = 0" and "maxBpm e < bpm e"
  proof -
    have "?c = maxBpm e" using assms(1) that(5) by simp
    with C [OF that(1-4)] that(5) show ?thesis by simp
  qed
  have E: "(barCount (nextNotes n e) < increaseIntervalBars e
            \<longrightarrow> bpm (nextNotes n e) = bpm e \<and> nextNotes_fx n e = [])
       \<and> (barCount (nextNotes n e) = increaseIntervalBars e \<longrightarrow> bpm (nextNotes n e) = ?c)
       \<and> barCount (nextNotes (nat (increaseIntervalBars e * beatsPerBar e)) e)
            = increaseIntervalBars e"
    if "0 < beatsPerBar e" "currentBeat e = 0" "barCount e = 0"
      and "increaseAmount e \<noteq> 0" "increaseIntervalBars e \<noteq> 0"
  proof -
    have pos: "0 < increaseAmount e" "0 < increaseIntervalBars e"
      using assms(1,2) that(4,5) by simp_all
    from first_ramp [OF that(1-3) pos, of n] quiet_before_first_ramp [OF that(1-3) pos, of n]
    show ?thesis by blast
  qed
  have X1: ?X1 if ?bar using A [OF that] .
  have X2: ?X2 if ?bar using B [OF that] by blast
  have X3: ?X3 if ?bar using B [OF that] by blast
  have X4: ?X4 if ?bar
  proof (intro impI, elim conjE)
    assume h: "increaseAmount e \<noteq> 0" "increaseIntervalBars e \<noteq> 0"
      "(barCount e + 1) mod increaseIntervalBars e = 0"
    from C [OF that h] D [OF that h]
    show "bpm (snd (nextNote e)) = ?c
        \<and> fst (nextNote e) = (if ?c \<noteq> bpm e then [BpmChange ?c] else [])
        \<and> (maxBpm e < bpm e
             \<longrightarrow> bpm (snd (nextNote e)) = maxBpm e \<and> bpm (snd (nextNote e)) < bpm e
               \<and> fst (nextNote e) = [BpmChange (maxBpm e)])"
      by blast
  qed
  have Y: ?Y if ?fresh using E that by blast
  show ?thesis
  proof (rule conjI)
    show "?bar \<longrightarrow> ?X1 \<and> ?X2 \<and> ?X3 \<and> ?X4"
    proof (rule impI)
      assume b: ?bar
      show "?X1 \<and> ?X2 \<and> ?X3 \<and> ?X4"
        by (rule conjI [OF X1 [OF b] conjI [OF X2 [OF b] conjI [OF X3 [OF b] X4 [OF b]]]])
    qed
    show "?fresh \<longrightarrow> ?Y"
      by (rule impI) (rule Y)
  qed
qed


theorem tempo_update_rule_witness:
  "bpm (snd (nextNote (new_AudioEngine\<lparr> currentBeat := 3, barCount := 3, onBpmChangeCallback := True,
            increaseAmount := 5, increaseIntervalBars := 4 \<rparr>))) = 65
   \<and> fst (nextNote (new_AudioEngine\<lparr> currentBeat := 3, barCount := 3, onBpmChangeCallback := True,
            increaseAmount := 5, increaseIntervalBars := 4 \<rparr>)) = [BpmChange 65]
   \<and> bpm (snd (nextNote (new_AudioEngine\<lparr> currentBeat := 3, barCount := 2, onBpmChangeCallback := True,
            increaseAmount := 5, increaseIntervalBars := 4 \<rparr>))) = 60
   \<and> bpm (snd (nextNote (new_AudioEngine\<lparr> currentBeat := 3, barCount := 3, onBpmChangeCallback := True,
            bpm := 210, increaseAmount := 5, increaseIntervalBars := 4 \<rparr>))) = 200
   \<and> fst (nextNote (new_AudioEngine\<lparr> currentBeat := 3, barCount := 3, onBpmChangeCallback := True,
            bpm := 210, increaseAmount := 5, increaseIntervalBars := 4 \<rparr>)) = [BpmChange 200]
   \<and> bpm (nextNotes 15 (new_AudioEngine\<lparr> onBpmChangeCallback := True,
            increaseAmount := 5, increaseIntervalBars := 4 \<rparr>)) = 60
   \<and> nextNotes_fx 15 (new_AudioEngine\<lparr> onBpmChangeCallback := True,
            increaseAmount := 5, increaseIntervalBars := 4 \<rparr>) = []
   \<and> bpm (nextNotes 16 (new_AudioEngine\<lparr> onBpmChangeCallback := True,
            increaseAmount := 5, increaseIntervalBars := 4 \<rparr>)) = 65"
  using
    tempo_update_rule [of "new_AudioEngine\<lparr> currentBeat := 3, barCount := 3, onBpmChangeCallback := True,
            increaseAmount := 5, increaseIntervalBars := 4 \<rparr>" 0]
    tempo_update_rule [of "new_AudioEngine\<lparr> currentBeat := 3, barCount := 2, onBpmChangeCallback := True,
            increaseAmount := 5, increaseIntervalBars := 4 \<rparr>" 0]
    tempo_update_rule [of "new_AudioEngine\<lparr> currentBeat := 3, barCount := 3, onBpmChangeCallback := True,
            bpm := 210, increaseAmount := 5, increaseIntervalBars := 4 \<rparr>" 0]
    tempo_update_rule [of "new_AudioEngine\<lparr> onBpmChangeCallback := True,
            increaseAmount := 5, increaseIntervalBars := 4 \<rparr>" 15]
    tempo_update_rule [of "new_AudioEngine\<lparr> onBpmChangeCallback := True,
            increaseAmount := 5, increaseIntervalBars := 4 \<rparr>" 16]
    fresh_bars [of "new_AudioEngine\<lparr> onBpmChangeCallback := True,
            increaseAmount := 5, increaseIntervalBars := 4 \<rparr>" 15]
  by (simp add: new_AudioEngine_def)

text \<open>
  C3, as amended. From a fresh cursor, with \<open>beatsPerBar \<ge> 1\<close>, \<open>increaseAmount > 0\<close>,
  \<open>increaseIntervalBars \<ge> 1\<close> and a start tempo not above \<open>maxBpm\<close>: at the bar boundary
  \<open>k * increaseIntervalBars\<close> the tempo is \<open>min (bpm + k * increaseAmount) maxBpm\<close>; the tempo
  never decreases from one advance to the next and never exceeds \<open>maxBpm\<close>; once it equals
  \<open>maxBpm\<close> it stays there and no further tempo change is notified.
\<close>

theorem tempo_ramp_sequence:
  assumes "0 < beatsPerBar e" "currentBeat e = 0" "barCount e = 0"
    and "0 < increaseAmount e" "0 < increaseIntervalBars e" "bpm e \<le> maxBpm e"
  shows "barCount (nextNotes (k * nat (increaseIntervalBars e * beatsPerBar e)) e)
           = int k * increaseIntervalBars e
       \<and> bpm (nextNotes (k * nat (increaseIntervalBars e * beatsPerBar e)) e)
           = min (bpm e + real k * increaseAmount e) (maxBpm e)
       \<and> bpm (nextNotes n e) \<le> bpm (nextNotes (Suc n) e)
       \<and> bpm (nextNotes n e) \<le> maxBpm e
       \<and> (bpm (nextNotes n e) = maxBpm e
            \<longrightarrow> bpm (nextNotes (n + m) e) = maxBpm e \<and> nextNotes_fx m (nextNotes n e) = [])"
proof -
  let ?I = "increaseIntervalBars e" and ?B = "beatsPerBar e"
  let ?n = "k * nat (?I * ?B)"
  have nn: "0 \<le> ?I * ?B" using assms(1,5) by simp
  then have n: "int ?n = (int k * ?I) * ?B" by simp
  have bars: "barCount (nextNotes ?n e) = int k * ?I"
    using fresh_bars [OF assms(1-3), of ?n] assms(1) unfolding n by simp
  have "bpm (nextNotes ?n e) = ramped e (int k)"
    using fresh_bpm [OF assms(1-5), of ?n] assms(5) unfolding bars by simp
  also have "\<dots> = min (bpm e + real k * increaseAmount e) (maxBpm e)"
    using assms(6) by (cases "k = 0") (simp_all add: ramped_def)
  finally have tempo: "bpm (nextNotes ?n e) = min (bpm e + real k * increaseAmount e) (maxBpm e)" .
  have below: "bpm (nextNotes n e) \<le> maxBpm e"
    by (rule nextNotes_below_ceiling [OF assms(6)])
  then have "bpm (nextNotes n e) \<le> maxBpm (nextNotes n e)" by (simp add: nextNotes_settings)
  from nextNote_below_ceiling(1) [OF this]
  have mono: "bpm (nextNotes n e) \<le> bpm (nextNotes (Suc n) e)" by simp
  have stay: "bpm (nextNotes (n + m) e) = maxBpm e \<and> nextNotes_fx m (nextNotes n e) = []"
    if "bpm (nextNotes n e) = maxBpm e"
  proof -
    have c: "bpm (nextNotes n e) = maxBpm (nextNotes n e)"
      using that by (simp add: nextNotes_settings)
    from nextNotes_at_ceiling [OF c, of m] nextNotes_fx_at_ceiling [OF c, of m]
    show ?thesis by (simp add: nextNotes_add nextNotes_settings)
  qed
  show ?thesis using bars tempo below mono stay by simp
qed

theorem tempo_ramp_sequence_witness:
  "bpm (nextNotes 160 (new_AudioEngine\<lparr> bpm := 80, onBpmChangeCallback := True,
          increaseAmount := 5, increaseIntervalBars := 1 \<rparr>)) = 200
   \<and> barCount (nextNotes 160 (new_AudioEngine\<lparr> bpm := 80, onBpmChangeCallback := True,
          increaseAmount := 5, increaseIntervalBars := 1 \<rparr>)) = 40
   \<and> bpm (nextNotes (160 + 400) (new_AudioEngine\<lparr> bpm := 80, onBpmChangeCallback := True,
          increaseAmount := 5, increaseIntervalBars := 1 \<rparr>)) = 200
   \<and> nextNotes_fx 400 (nextNotes 160 (new_AudioEngine\<lparr> bpm := 80, onBpmChangeCallback := True,
          increaseAmount := 5, increaseIntervalBars := 1 \<rparr>)) = []"
  using tempo_ramp_sequence [of "new_AudioEngine\<lparr> bpm := 80, onBpmChangeCallback := True,
          increaseAmount := 5, increaseIntervalBars := 1 \<rparr>" 40 160 400]
  by (simp add: new_AudioEngine_def)

text \<open>
  C3 as stated, for every start tempo, fails when the start tempo is above \<open>maxBpm\<close>: with
  tempo 210, ceiling 200, \<open>increaseAmount = 5\<close> and \<open>increaseIntervalBars = 1\<close> the tempo after
  the first bar is lower than the start tempo, which itself exceeds the ceiling.
\<close>

theorem tempo_above_ceiling_decreases:
  "bpm (nextNotes 4 (new_AudioEngine\<lparr> bpm := 210, increaseAmount := 5, increaseIntervalBars := 1 \<rparr>))
     < bpm (nextNotes 0 (new_AudioEngine\<lparr> bpm := 210, increaseAmount := 5, increaseIntervalBars := 1 \<rparr>))
   \<and> maxBpm (new_AudioEngine\<lparr> bpm := 210, increaseAmount := 5, increaseIntervalBars := 1 \<rparr>)
     < bpm (nextNotes 0 (new_AudioEngine\<lparr> bpm := 210, increaseAmount := 5, increaseIntervalBars := 1 \<rparr>))"
  by (simp add: new_AudioEngine_def nextNote_def handleSpeedIncrease_def js_rem_def Let_def
      eval_nat_numeral)

end
